theory Spec2Isabelle
  imports Main "HOL-Library.Word"
begin

unbundle bit_operations_syntax

section \<open>Python values that the steganography code handles\<close>

text \<open>
  The exceptions that the modelled code can meet.  Every constructor stands for a subclass
  of Python's \<^verbatim>\<open>Exception\<close>; \<^verbatim>\<open>QuantumStateError\<close>, \<^verbatim>\<open>PhiModulationError\<close> and
  \<^verbatim>\<open>EntropyPoolError\<close> are the classes of \<^verbatim>\<open>exceptions.py\<close> that \<^verbatim>\<open>core.py\<close> names in
  its handlers.
\<close>

datatype py_exception =
    IndexError | ValueError | TypeError | NameError | OSError
  | QuantumStateError | PhiModulationError | EntropyPoolError
  | OtherException

type_synonym u8 = "8 word"

text \<open>
  What \<^verbatim>\<open>pixels[x, y]\<close> and \<^verbatim>\<open>img.getpixel((x, y))\<close> return: an integer for a
  single-band image, a 3-tuple for RGB, a 4-tuple for RGBA.  Channels are 8-bit.
\<close>

datatype pixel = PInt u8 | PTuple3 u8 u8 u8 | PTuple4 u8 u8 u8 u8

datatype img_mode = L | RGB | RGBA

text \<open>
  A PIL image: its mode, width, height and pixel buffer.  The buffer is a function of the
  coordinates; every access goes through the bounds check of \<open>pixel_index\<close>.
\<close>

datatype image =
    ImgL nat nat "nat \<times> nat \<Rightarrow> u8"
  | ImgRGB nat nat "nat \<times> nat \<Rightarrow> u8 \<times> u8 \<times> u8"
  | ImgRGBA nat nat "nat \<times> nat \<Rightarrow> u8 \<times> u8 \<times> u8 \<times> u8"

fun mode :: "image \<Rightarrow> img_mode" where
  "mode (ImgL w h f) = L"
| "mode (ImgRGB w h f) = RGB"
| "mode (ImgRGBA w h f) = RGBA"

fun width :: "image \<Rightarrow> nat" where
  "width (ImgL w h f) = w"
| "width (ImgRGB w h f) = w"
| "width (ImgRGBA w h f) = w"

fun height :: "image \<Rightarrow> nat" where
  "height (ImgL w h f) = h"
| "height (ImgRGB w h f) = h"
| "height (ImgRGBA w h f) = h"

text \<open>
  PIL's index rule, the same for reading and writing: a negative coordinate counts from
  the far edge once, and a coordinate that is still outside the image raises IndexError.
\<close>

definition pixel_index :: "image \<Rightarrow> int \<times> int \<Rightarrow> py_exception + nat \<times> nat" where
  "pixel_index img xy =
     (case xy of (x, y) \<Rightarrow>
        let x' = (if x < 0 then int (width img) + x else x);
            y' = (if y < 0 then int (height img) + y else y)
        in if x' < 0 \<or> int (width img) \<le> x' \<or> y' < 0 \<or> int (height img) \<le> y'
           then Inl IndexError
           else Inr (nat x', nat y'))"

fun buffer_get :: "image \<Rightarrow> nat \<times> nat \<Rightarrow> pixel" where
  "buffer_get (ImgL w h f) p = PInt (f p)"
| "buffer_get (ImgRGB w h f) p = (case f p of (r, g, b) \<Rightarrow> PTuple3 r g b)"
| "buffer_get (ImgRGBA w h f) p = (case f p of (r, g, b, a) \<Rightarrow> PTuple4 r g b a)"

definition getpixel :: "image \<Rightarrow> int \<times> int \<Rightarrow> py_exception + pixel" where
  "getpixel img xy =
     (case pixel_index img xy of Inl e \<Rightarrow> Inl e | Inr p \<Rightarrow> Inr (buffer_get img p))"

text \<open>
  \<^verbatim>\<open>pixels[x, y] = value\<close>.  The code only ever writes back a tuple of the arity it has
  just unpacked from the same image, so a value of another shape is an error here.
\<close>

fun buffer_put :: "image \<Rightarrow> nat \<times> nat \<Rightarrow> pixel \<Rightarrow> py_exception + image" where
  "buffer_put (ImgL w h f) p (PInt v) = Inr (ImgL w h (f(p := v)))"
| "buffer_put (ImgRGB w h f) p (PTuple3 r g b) = Inr (ImgRGB w h (f(p := (r, g, b))))"
| "buffer_put (ImgRGBA w h f) p (PTuple4 r g b a) = Inr (ImgRGBA w h (f(p := (r, g, b, a))))"
| "buffer_put img p v = Inl TypeError"

definition putpixel :: "image \<Rightarrow> int \<times> int \<Rightarrow> pixel \<Rightarrow> py_exception + image" where
  "putpixel img xy v =
     (case pixel_index img xy of Inl e \<Rightarrow> Inl e | Inr p \<Rightarrow> buffer_put img p v)"

text \<open>Tuple unpacking: \<^verbatim>\<open>r, g, b = v\<close> and \<^verbatim>\<open>r, g, b, a = v\<close>.\<close>

fun unpack3 :: "pixel \<Rightarrow> py_exception + u8 \<times> u8 \<times> u8" where
  "unpack3 (PTuple3 r g b) = Inr (r, g, b)"
| "unpack3 (PTuple4 r g b a) = Inl ValueError"
| "unpack3 (PInt v) = Inl TypeError"

fun unpack4 :: "pixel \<Rightarrow> py_exception + u8 \<times> u8 \<times> u8 \<times> u8" where
  "unpack4 (PTuple4 r g b a) = Inr (r, g, b, a)"
| "unpack4 (PTuple3 r g b) = Inl ValueError"
| "unpack4 (PInt v) = Inl TypeError"

text \<open>\<^verbatim>\<open>range(a, b)\<close> over Python integers.\<close>

definition py_range :: "int \<Rightarrow> int \<Rightarrow> int list" where
  "py_range a b = [a..b - 1]"

section \<open>Double-precision arithmetic on non-negative values\<close>

text \<open>
  A non-negative Python float is kept exactly, as the pair \<open>(m, k)\<close> that stands for
  \<open>m / 2 ^ k\<close>.  \<open>round53\<close> is IEEE-754 round-to-nearest, ties to even, to a 53-bit
  significand; the values met here are far from the overflow and subnormal ranges.
\<close>

type_synonym pyfloat = "int \<times> nat"

fun bit_length :: "int \<Rightarrow> nat" where
  "bit_length n = (if n \<le> 0 then 0 else Suc (bit_length (n div 2)))"

declare bit_length.simps [simp del]

definition round53 :: "pyfloat \<Rightarrow> pyfloat" where
  "round53 f =
     (case f of (m, k) \<Rightarrow>
        if bit_length m \<le> 53 then (m, k)
        else let s = bit_length m - 53;
                 q = m div 2 ^ s;
                 r = m mod 2 ^ s;
                 q' = (if 2 ^ s < 2 * r \<or> (2 * r = 2 ^ s \<and> odd q) then q + 1 else q)
             in if s \<le> k then (q', k - s) else (q' * 2 ^ (s - k), 0))"

definition float_of_int :: "int \<Rightarrow> pyfloat" where
  "float_of_int n = round53 (n, 0)"

definition float_add :: "pyfloat \<Rightarrow> pyfloat \<Rightarrow> pyfloat" where
  "float_add a b =
     (let k = max (snd a) (snd b)
      in round53 (fst a * 2 ^ (k - snd a) + fst b * 2 ^ (k - snd b), k))"

definition float_mul :: "pyfloat \<Rightarrow> pyfloat \<Rightarrow> pyfloat" where
  "float_mul a b = round53 (fst a * fst b, snd a + snd b)"

definition float_half :: "pyfloat \<Rightarrow> pyfloat" where
  "float_half a = (fst a, Suc (snd a))"

definition float_mod1 :: "pyfloat \<Rightarrow> pyfloat" where
  "float_mod1 a = (fst a mod 2 ^ snd a, snd a)"

definition float_less :: "pyfloat \<Rightarrow> pyfloat \<Rightarrow> bool" where
  "float_less a b \<longleftrightarrow> fst a * 2 ^ snd b < fst b * 2 ^ snd a"

definition int_of_float :: "pyfloat \<Rightarrow> int" where
  "int_of_float a = fst a div 2 ^ snd a"

text \<open>
  \<^verbatim>\<open>5 ** 0.5\<close>: the double nearest to the square root of five,
  \<^verbatim>\<open>0x1.1e3779b97f4a8p+1\<close>.
\<close>

definition pow_5_half :: pyfloat where
  "pow_5_half = (5035177455121576, 51)"

text \<open>\<^verbatim>\<open>phi = (1 + 5 ** 0.5) / 2\<close>\<close>

definition phi :: pyfloat where
  "phi = float_half (float_add (float_of_int 1) pow_5_half)"

section \<open>utils.py: the header checksum\<close>

text \<open>
  \<^verbatim>\<open>checksum = int((checksum + r + g + b) * phi) % 256\<close>
\<close>

definition checksum_step :: "int \<Rightarrow> u8 \<times> u8 \<times> u8 \<Rightarrow> int" where
  "checksum_step checksum p =
     (case p of (r, g, b) \<Rightarrow>
        int_of_float (float_mul (float_of_int (checksum + uint r + uint g + uint b)) phi)
          mod 256)"

text \<open>The inner loop \<^verbatim>\<open>for y in range(y1, y2)\<close> of \<^verbatim>\<open>calculate_checksum\<close>.\<close>

fun checksum_ys :: "image \<Rightarrow> int \<Rightarrow> int list \<Rightarrow> int \<Rightarrow> py_exception + int" where
  "checksum_ys img x [] checksum = Inr checksum"
| "checksum_ys img x (y # ys) checksum =
     (case getpixel img (x, y) of
        Inl e \<Rightarrow> Inl e
      | Inr v \<Rightarrow>
          (case unpack3 v of
             Inl e \<Rightarrow> Inl e
           | Inr p \<Rightarrow> checksum_ys img x ys (checksum_step checksum p)))"

text \<open>The outer loop \<^verbatim>\<open>for x in range(x1, x2)\<close>.\<close>

fun checksum_xs :: "image \<Rightarrow> int list \<Rightarrow> int list \<Rightarrow> int \<Rightarrow> py_exception + int" where
  "checksum_xs img [] ys checksum = Inr checksum"
| "checksum_xs img (x # xs) ys checksum =
     (case checksum_ys img x ys checksum of
        Inl e \<Rightarrow> Inl e
      | Inr c \<Rightarrow> checksum_xs img xs ys c)"

text \<open>The clamped corners of a region, as the first lines of \<^verbatim>\<open>calculate_checksum\<close> compute them.\<close>

definition clamp_region :: "image \<Rightarrow> int \<times> int \<times> int \<times> int \<Rightarrow> int \<times> int \<times> int \<times> int" where
  "clamp_region img region =
     (case region of (x1, y1, x2, y2) \<Rightarrow>
        let x1' = max 0 (min x1 (int (width img) - 1));
            y1' = max 0 (min y1 (int (height img) - 1));
            x2' = max x1' (min x2 (int (width img)));
            y2' = max y1' (min y2 (int (height img)))
        in (x1', y1', x2', y2'))"

definition calculate_checksum :: "image \<Rightarrow> int \<times> int \<times> int \<times> int \<Rightarrow> int" where
  "calculate_checksum img region =
     (case clamp_region img region of (x1, y1, x2, y2) \<Rightarrow>
        (case checksum_xs img (py_range x1 x2) (py_range y1 y2) 0 of
           Inr checksum \<Rightarrow> checksum
         | Inl e \<Rightarrow> - 1))"

text \<open>
  The order of the nested loops: \<open>x\<close> in the outer loop, \<open>y\<close> in the inner one.
\<close>

definition column_major :: "int list \<Rightarrow> int list \<Rightarrow> (int \<times> int) list" where
  "column_major xs ys = concat (map (\<lambda>x. map (\<lambda>y. (x, y)) ys) xs)"

text \<open>
  The order that the specification names: rows in increasing \<open>y\<close>, \<open>x\<close> varying fastest.
\<close>

definition row_major :: "int list \<Rightarrow> int list \<Rightarrow> (int \<times> int) list" where
  "row_major xs ys = concat (map (\<lambda>y. map (\<lambda>x. (x, y)) xs) ys)"

text \<open>
  The checksum as the specification words it: the same fold, over the clamped region in
  row-major order.  It is compared with \<open>calculate_checksum\<close> below.
\<close>

definition spec_checksum_row_major ::
    "nat \<Rightarrow> nat \<Rightarrow> (nat \<times> nat \<Rightarrow> u8 \<times> u8 \<times> u8) \<Rightarrow> int \<times> int \<times> int \<times> int \<Rightarrow> int" where
  "spec_checksum_row_major w h f region =
     (case clamp_region (ImgRGB w h f) region of (x1, y1, x2, y2) \<Rightarrow>
        foldl checksum_step 0
          (map (\<lambda>(x, y). f (nat x, nat y)) (row_major (py_range x1 x2) (py_range y1 y2))))"

section \<open>Bit strings\<close>

text \<open>
  A Python \<^verbatim>\<open>str\<close> is the list of its code points.  The strings of \<^verbatim>\<open>'0'\<close> and
  \<^verbatim>\<open>'1'\<close> that the code builds are lists of booleans, \<^verbatim>\<open>'1'\<close> being \<open>True\<close>.
\<close>

type_synonym pystr = "nat list"

text \<open>\<^verbatim>\<open>format(n, 'b')\<close>: the binary digits of \<open>n\<close>, most significant first.\<close>

fun bin_digits :: "nat \<Rightarrow> bool list" where
  "bin_digits n = (if n < 2 then [n = 1] else bin_digits (n div 2) @ [odd n])"

declare bin_digits.simps [simp del]

text \<open>\<^verbatim>\<open>format(n, '08b')\<close>: padded with zeros on the left to at least eight digits.\<close>

definition format_08b :: "nat \<Rightarrow> bool list" where
  "format_08b n = replicate (8 - length (bin_digits n)) False @ bin_digits n"

text \<open>\<^verbatim>\<open>''.join(format(ord(c), '08b') for c in data_hash)\<close>\<close>

definition to_binary :: "pystr \<Rightarrow> bool list" where
  "to_binary data_hash = concat (map format_08b data_hash)"

text \<open>\<^verbatim>\<open>int(byte, 2)\<close>\<close>

definition int_base2 :: "bool list \<Rightarrow> nat" where
  "int_base2 byte = foldl (\<lambda>a b. 2 * a + (if b then 1 else 0)) 0 byte"

text \<open>
  The conversion loop of the decoders:
  \<^verbatim>\<open>for i in range(0, len(binary_data), 8): byte = binary_data[i:i+8]\<close>, a character is
  appended only when \<^verbatim>\<open>len(byte) == 8\<close>.  The recursion consumes the string eight digits
  at a time.
\<close>

fun chars_of_binary :: "bool list \<Rightarrow> pystr" where
  "chars_of_binary binary_data =
     (if binary_data = [] then []
      else (if length (take 8 binary_data) = 8 then [int_base2 (take 8 binary_data)] else [])
           @ chars_of_binary (drop 8 binary_data))"

declare chars_of_binary.simps [simp del]

section \<open>modes.py: the three placement modes\<close>

datatype stegano_mode = PSI | PHI | TAU

text \<open>
  The read-modify-write of one pixel.  \<^verbatim>\<open>int(bit)\<close> is \<open>of_bool bit\<close>.

  \<^verbatim>\<open>r, g, b, a = pixels[x, y]; a = (a & ~1) | int(bit)\<close>
\<close>

definition psi_update :: "bool \<Rightarrow> pixel \<Rightarrow> py_exception + pixel" where
  "psi_update bit_i v =
     (case unpack4 v of
        Inl e \<Rightarrow> Inl e
      | Inr (r, g, b, a) \<Rightarrow> Inr (PTuple4 r g b ((a AND NOT 1) OR of_bool bit_i)))"

text \<open>\<^verbatim>\<open>r, g, b = pixels[x, y]; r = (r & ~1) | int(bit)\<close>\<close>

definition phi_update :: "bool \<Rightarrow> pixel \<Rightarrow> py_exception + pixel" where
  "phi_update bit_i v =
     (case unpack3 v of
        Inl e \<Rightarrow> Inl e
      | Inr (r, g, b) \<Rightarrow> Inr (PTuple3 ((r AND NOT 1) OR of_bool bit_i) g b))"

text \<open>
  \<^verbatim>\<open>r, g, b = pixels[x, y]; r = (r & ~0b11) | (int(bit) << 1); g = (g & ~0b1) | int(bit)\<close>
\<close>

definition tau_update :: "bool \<Rightarrow> pixel \<Rightarrow> py_exception + pixel" where
  "tau_update bit_i v =
     (case unpack3 v of
        Inl e \<Rightarrow> Inl e
      | Inr (r, g, b) \<Rightarrow>
          Inr (PTuple3 ((r AND NOT 3) OR push_bit 1 (of_bool bit_i))
                       ((g AND NOT 1) OR of_bool bit_i) b))"

text \<open>The body of every embedding loop once \<open>(x, y)\<close> is known: read, update, write back.\<close>

definition write_pixel ::
    "(bool \<Rightarrow> pixel \<Rightarrow> py_exception + pixel) \<Rightarrow> image \<Rightarrow> int \<times> int \<Rightarrow> bool
     \<Rightarrow> py_exception + image" where
  "write_pixel upd img xy bit_i =
     (case getpixel img xy of
        Inl e \<Rightarrow> Inl e
      | Inr v \<Rightarrow> (case upd bit_i v of Inl e \<Rightarrow> Inl e | Inr v' \<Rightarrow> putpixel img xy v'))"

text \<open>
  The sequential loop shared by the three encoders:
  \<^verbatim>\<open>for i, bit in enumerate(binary_data): if i >= width * height: break;
  x, y = i % width, i // width; ...\<close>.
  The image is mutated in place, so an exception leaves the writes made so far: the result
  is the exception, if any, and the image as it stands.
\<close>

fun embed_raster ::
    "(bool \<Rightarrow> pixel \<Rightarrow> py_exception + pixel) \<Rightarrow> nat \<Rightarrow> nat \<Rightarrow> image \<Rightarrow> nat \<Rightarrow> bool list
     \<Rightarrow> py_exception option \<times> image" where
  "embed_raster upd w h img i [] = (None, img)"
| "embed_raster upd w h img i (bit_i # bits) =
     (if w * h \<le> i then (None, img)
      else (case write_pixel upd img (int (i mod w), int (i div w)) bit_i of
              Inl e \<Rightarrow> (Some e, img)
            | Inr img' \<Rightarrow> embed_raster upd w h img' (Suc i) bits))"

text \<open>
  The loop over an explicit position list:
  \<^verbatim>\<open>if i >= len(positions): break; x, y = positions[i]; ...\<close>
\<close>

fun embed_positions ::
    "(bool \<Rightarrow> pixel \<Rightarrow> py_exception + pixel) \<Rightarrow> (int \<times> int) list \<Rightarrow> image \<Rightarrow> nat \<Rightarrow> bool list
     \<Rightarrow> py_exception option \<times> image" where
  "embed_positions upd positions img i [] = (None, img)"
| "embed_positions upd positions img i (bit_i # bits) =
     (if length positions \<le> i then (None, img)
      else (case write_pixel upd img (positions ! i) bit_i of
              Inl e \<Rightarrow> (Some e, img)
            | Inr img' \<Rightarrow> embed_positions upd positions img' (Suc i) bits))"

text \<open>
  Image objects live in a store and are named by their index: \<^verbatim>\<open>img.convert("RGBA")\<close>
  creates a new object and leaves the one it is called on as it was.  A new image in
  mode RGBA is opaque: alpha is 255.
\<close>

type_synonym heap = "image list"

fun to_rgba :: "image \<Rightarrow> image" where
  "to_rgba (ImgL w h f) = ImgRGBA w h (\<lambda>p. (f p, f p, f p, 255))"
| "to_rgba (ImgRGB w h f) = ImgRGBA w h (\<lambda>p. case f p of (r, g, b) \<Rightarrow> (r, g, b, 255))"
| "to_rgba (ImgRGBA w h f) = ImgRGBA w h f"

definition convert_rgba :: "heap \<Rightarrow> nat \<Rightarrow> heap \<times> nat" where
  "convert_rgba hp img = (hp @ [to_rgba (hp ! img)], length hp)"

text \<open>
  \<^verbatim>\<open>_encode_psi\<close>.  The local name \<^verbatim>\<open>img\<close> is rebound to the converted copy when the
  mode is not RGBA; the loop then works on that object.
\<close>

definition encode_psi :: "heap \<Rightarrow> nat \<Rightarrow> pystr \<Rightarrow> bool \<times> heap" where
  "encode_psi hp img data_hash =
     (let (hp1, img1) = (if mode (hp ! img) \<noteq> RGBA then convert_rgba hp img else (hp, img));
          w = width (hp1 ! img1);
          h = height (hp1 ! img1);
          binary_data = to_binary data_hash;
          (err, im) = embed_raster psi_update w h (hp1 ! img1) 0 binary_data
      in (err = None, hp1[img1 := im]))"

text \<open>
  \<^verbatim>\<open>_encode_phi\<close>.  \<^verbatim>\<open>if positions:\<close> is true for a list that is given and not empty.
\<close>

definition encode_phi :: "heap \<Rightarrow> nat \<Rightarrow> pystr \<Rightarrow> (int \<times> int) list option \<Rightarrow> bool \<times> heap" where
  "encode_phi hp img data_hash positions =
     (let binary_data = to_binary data_hash;
          (err, im) =
            (if positions \<noteq> None \<and> the positions \<noteq> []
             then embed_positions phi_update (the positions) (hp ! img) 0 binary_data
             else embed_raster phi_update (width (hp ! img)) (height (hp ! img)) (hp ! img) 0
                    binary_data)
      in (err = None, hp[img := im]))"

text \<open>\<^verbatim>\<open>_encode_tau\<close>\<close>

definition encode_tau :: "heap \<Rightarrow> nat \<Rightarrow> pystr \<Rightarrow> bool \<times> heap" where
  "encode_tau hp img data_hash =
     (let w = width (hp ! img);
          h = height (hp ! img);
          binary_data = to_binary data_hash;
          (err, im) = embed_raster tau_update w h (hp ! img) 0 binary_data
      in (err = None, hp[img := im]))"

text \<open>\<^verbatim>\<open>SteganoMode.encode\<close>\<close>

definition SteganoMode_encode ::
    "stegano_mode \<Rightarrow> heap \<Rightarrow> nat \<Rightarrow> pystr \<Rightarrow> (int \<times> int) list option \<Rightarrow> bool \<times> heap" where
  "SteganoMode_encode self hp img data_hash positions =
     (if self = PSI then encode_psi hp img data_hash
      else if self = PHI then encode_phi hp img data_hash positions
      else encode_tau hp img data_hash)"

text \<open>
  The bit that each decoder takes from a pixel:
  \<^verbatim>\<open>_, _, _, a = pixels[x, y]; str(a & 1)\<close>,
  \<^verbatim>\<open>r, _, _ = pixels[x, y]; str(r & 1)\<close> and
  \<^verbatim>\<open>r, _, _ = pixels[x, y]; str((r >> 1) & 1)\<close>.
\<close>

definition psi_sample :: "pixel \<Rightarrow> py_exception + bool" where
  "psi_sample v = (case unpack4 v of Inl e \<Rightarrow> Inl e | Inr (r, g, b, a) \<Rightarrow> Inr (a AND 1 = 1))"

definition phi_sample :: "pixel \<Rightarrow> py_exception + bool" where
  "phi_sample v = (case unpack3 v of Inl e \<Rightarrow> Inl e | Inr (r, g, b) \<Rightarrow> Inr (r AND 1 = 1))"

definition tau_sample :: "pixel \<Rightarrow> py_exception + bool" where
  "tau_sample v =
     (case unpack3 v of Inl e \<Rightarrow> Inl e | Inr (r, g, b) \<Rightarrow> Inr (drop_bit 1 r AND 1 = 1))"

text \<open>
  The inner loop of the decoders, \<^verbatim>\<open>for x in range(width)\<close>, with its
  \<^verbatim>\<open>if len(binary_data) >= 512: break\<close>.
\<close>

fun read_row ::
    "(pixel \<Rightarrow> py_exception + bool) \<Rightarrow> image \<Rightarrow> int \<Rightarrow> int list \<Rightarrow> bool list
     \<Rightarrow> py_exception + bool list" where
  "read_row sample img y [] binary_data = Inr binary_data"
| "read_row sample img y (x # xs) binary_data =
     (if 512 \<le> length binary_data then Inr binary_data
      else (case getpixel img (x, y) of
              Inl e \<Rightarrow> Inl e
            | Inr v \<Rightarrow>
                (case sample v of
                   Inl e \<Rightarrow> Inl e
                 | Inr b \<Rightarrow> read_row sample img y xs (binary_data @ [b]))))"

text \<open>
  The outer loop, \<^verbatim>\<open>for y in range(height)\<close>.  The \<^verbatim>\<open>break\<close> leaves the inner loop
  only: every later row is entered and left at its first pixel.
\<close>

fun read_rows ::
    "(pixel \<Rightarrow> py_exception + bool) \<Rightarrow> image \<Rightarrow> int list \<Rightarrow> int list \<Rightarrow> bool list
     \<Rightarrow> py_exception + bool list" where
  "read_rows sample img [] xs binary_data = Inr binary_data"
| "read_rows sample img (y # ys) xs binary_data =
     (case read_row sample img y xs binary_data of
        Inl e \<Rightarrow> Inl e
      | Inr binary_data' \<Rightarrow> read_rows sample img ys xs binary_data')"

text \<open>
  The body shared by the three decoders; an exception anywhere gives the empty string.
  Decoding reads the image and does not change it.
\<close>

definition decode_with :: "(pixel \<Rightarrow> py_exception + bool) \<Rightarrow> image \<Rightarrow> pystr" where
  "decode_with sample img =
     (case read_rows sample img (py_range 0 (int (height img))) (py_range 0 (int (width img))) []
      of Inl e \<Rightarrow> []
       | Inr binary_data \<Rightarrow> chars_of_binary binary_data)"

text \<open>\<^verbatim>\<open>_decode_psi\<close>, \<^verbatim>\<open>_decode_phi\<close>, \<^verbatim>\<open>_decode_tau\<close>\<close>

definition decode_psi :: "image \<Rightarrow> pystr" where
  "decode_psi img = (if mode img \<noteq> RGBA then [] else decode_with psi_sample img)"

definition decode_phi :: "image \<Rightarrow> pystr" where
  "decode_phi img = decode_with phi_sample img"

definition decode_tau :: "image \<Rightarrow> pystr" where
  "decode_tau img = decode_with tau_sample img"

text \<open>\<^verbatim>\<open>SteganoMode.decode\<close>\<close>

definition SteganoMode_decode :: "stegano_mode \<Rightarrow> image \<Rightarrow> pystr" where
  "SteganoMode_decode self img =
     (if self = PSI then decode_psi img
      else if self = PHI then decode_phi img
      else decode_tau img)"

section \<open>utils.py: embedding and extracting the checksum\<close>

text \<open>
  The loop of \<^verbatim>\<open>embed_checksum\<close>: \<^verbatim>\<open>x, y = i % 50, i // 50\<close>, no capacity test, the
  red channel's lowest bit written as in the golden-ratio mode.
\<close>

fun embed_header :: "image \<Rightarrow> nat \<Rightarrow> bool list \<Rightarrow> py_exception option \<times> image" where
  "embed_header img i [] = (None, img)"
| "embed_header img i (bit_i # bits) =
     (case write_pixel phi_update img (int (i mod 50), int (i div 50)) bit_i of
        Inl e \<Rightarrow> (Some e, img)
      | Inr img' \<Rightarrow> embed_header img' (Suc i) bits)"

text \<open>
  \<^verbatim>\<open>embed_checksum\<close>.  For a negative checksum \<^verbatim>\<open>format(checksum, '08b')\<close> starts with
  a minus sign, on which \<^verbatim>\<open>int(bit)\<close> raises in the first iteration, before any write;
  the handler passes, so the image is left as it was.  The image is mutated in place and
  nothing is returned: the model returns the image after the call.
\<close>

definition embed_checksum :: "image \<Rightarrow> int \<Rightarrow> image" where
  "embed_checksum img checksum =
     (if checksum < 0 then img
      else snd (embed_header img 0 (format_08b (nat checksum))))"

text \<open>The loop of \<^verbatim>\<open>extract_checksum\<close>, \<^verbatim>\<open>for i in range(8)\<close>.\<close>

fun extract_header :: "image \<Rightarrow> nat list \<Rightarrow> bool list \<Rightarrow> py_exception + bool list" where
  "extract_header img [] binary_checksum = Inr binary_checksum"
| "extract_header img (i # is) binary_checksum =
     (case getpixel img (int (i mod 50), int (i div 50)) of
        Inl e \<Rightarrow> Inl e
      | Inr v \<Rightarrow>
          (case phi_sample v of
             Inl e \<Rightarrow> Inl e
           | Inr b \<Rightarrow> extract_header img is (binary_checksum @ [b])))"

definition extract_checksum :: "image \<Rightarrow> int" where
  "extract_checksum img =
     (case extract_header img [0..<8] [] of
        Inl e \<Rightarrow> - 1
      | Inr binary_checksum \<Rightarrow> int (int_base2 binary_checksum))"

section \<open>core.py: mode selection\<close>

text \<open>\<^verbatim>\<open>CHAOS_INTENSITY = 0.6\<close>, the double \<^verbatim>\<open>0x1.3333333333333p-1\<close>.\<close>

definition CHAOS_INTENSITY :: pyfloat where
  "CHAOS_INTENSITY = (5404319552844595, 53)"

text \<open>The literals \<^verbatim>\<open>0.8\<close> (\<^verbatim>\<open>0x1.999999999999ap-1\<close>) and \<^verbatim>\<open>0.5\<close>.\<close>

definition float_0_8 :: pyfloat where
  "float_0_8 = (7205759403792794, 53)"

definition float_0_5 :: pyfloat where
  "float_0_5 = (1, 1)"

text \<open>\<^verbatim>\<open>chaos_factor = self.CHAOS_INTENSITY * phi % 1\<close>\<close>

definition chaos_factor :: pyfloat where
  "chaos_factor = float_mod1 (float_mul CHAOS_INTENSITY phi)"

text \<open>\<^verbatim>\<open>_initialize_mode\<close>\<close>

definition initialize_mode :: stegano_mode where
  "initialize_mode =
     (if float_less float_0_8 chaos_factor then PSI
      else if float_less float_0_5 chaos_factor then PHI
      else TAU)"

section \<open>core.py: the codec\<close>

text \<open>
  What the codec calls and does not define itself: the ethical and temporal validators
  of \<^verbatim>\<open>genesis_engine\<close>, numpy and its floating-point arrays (the type \<open>'arr\<close>), the
  hashing behind \<^verbatim>\<open>_hash_state\<close> and \<^verbatim>\<open>generate_pq_hash\<close>, and the writing of a file.
  Each is a field of this record; a call either raises or returns.

  \<^item> \<open>np_uint8\<close> is \<^verbatim>\<open>np.uint8(transformed_data)\<close>: the array comes from an RGB image, so
    it has three channels, and the field gives its width, height and pixels.
  \<^item> \<open>generate_pq_hash\<close> takes the number of the call as well, since the function salts
    its result with fresh random bytes.
  \<^item> \<open>save_error\<close> is the exception that \<^verbatim>\<open>img.save(path)\<close> raises, if any.
\<close>

record 'arr collaborators =
  validate_content :: "string \<Rightarrow> py_exception + bool"
  validate_pattern :: "'arr \<Rightarrow> py_exception + bool"
  analyze_pattern :: "'arr \<Rightarrow> py_exception + unit"
  np_array :: "image \<Rightarrow> 'arr"
  np_negative :: "'arr \<Rightarrow> 'arr"
  apply_quantum_transform :: "'arr \<Rightarrow> py_exception + 'arr"
  get_superposition_state :: "'arr \<Rightarrow> py_exception + 'arr list"
  np_uint8 :: "'arr \<Rightarrow> py_exception + nat \<times> nat \<times> (nat \<times> nat \<Rightarrow> u8 \<times> u8 \<times> u8)"
  hash_state :: "'arr \<Rightarrow> py_exception + string"
  generate_pq_hash :: "nat \<Rightarrow> string \<Rightarrow> py_exception + pystr"
  save_error :: "string \<Rightarrow> py_exception option"

text \<open>The files that hold images, by path.\<close>

type_synonym filesystem = "string \<Rightarrow> image option"

text \<open>\<^verbatim>\<open>Image.open(path)\<close>\<close>

definition image_open :: "filesystem \<Rightarrow> string \<Rightarrow> py_exception + image" where
  "image_open fs path = (case fs path of None \<Rightarrow> Inl OSError | Some img \<Rightarrow> Inr img)"

text \<open>\<^verbatim>\<open>img.convert("RGB")\<close>, a new image\<close>

fun to_rgb :: "image \<Rightarrow> image" where
  "to_rgb (ImgL w h f) = ImgRGB w h (\<lambda>p. (f p, f p, f p))"
| "to_rgb (ImgRGB w h f) = ImgRGB w h f"
| "to_rgb (ImgRGBA w h f) = ImgRGB w h (\<lambda>p. case f p of (r, g, b, a) \<Rightarrow> (r, g, b))"

text \<open>
  \<^verbatim>\<open>QuantumMetadata.record_quantum_state\<close> of \<^verbatim>\<open>quantum_features.py\<close>: it calls
  \<^verbatim>\<open>_hash_state\<close>, then \<^verbatim>\<open>_calculate_phi_correlation\<close>, which catches its own
  exceptions.  The lists it appends to are not read by the functions modelled here.
\<close>

definition record_quantum_state :: "'arr collaborators \<Rightarrow> 'arr \<Rightarrow> py_exception + unit" where
  "record_quantum_state env state =
     (case hash_state env state of Inl e \<Rightarrow> Inl e | Inr state_hash \<Rightarrow> Inr ())"

text \<open>
  \<^verbatim>\<open>try: ... except C1: ... except C2: ...\<close>.  The first handler whose class the exception
  belongs to runs; an exception that no handler matches goes on to the caller.
\<close>

fun try_except ::
    "py_exception + 'a \<Rightarrow> ((py_exception \<Rightarrow> bool) \<times> (py_exception \<Rightarrow> py_exception + 'a)) list
     \<Rightarrow> py_exception + 'a" where
  "try_except (Inr v) handlers = Inr v"
| "try_except (Inl e) [] = Inl e"
| "try_except (Inl e) ((matches, handler) # handlers) =
     (if matches e then handler e else try_except (Inl e) handlers)"

text \<open>
  The classes named in the handlers.  Every exception of \<open>py_exception\<close> is an instance of
  \<^verbatim>\<open>Exception\<close>.
\<close>

fun is_Exception :: "py_exception \<Rightarrow> bool" where
  "is_Exception e = True"

definition is_QuantumStateError :: "py_exception \<Rightarrow> bool" where
  "is_QuantumStateError e = (e = QuantumStateError)"

definition is_PhiModulationError :: "py_exception \<Rightarrow> bool" where
  "is_PhiModulationError e = (e = PhiModulationError)"

definition is_EntropyPoolError :: "py_exception \<Rightarrow> bool" where
  "is_EntropyPoolError e = (e = EntropyPoolError)"

text \<open>
  A codec instance: its collaborators and the mode chosen by \<^verbatim>\<open>__init__\<close>.
\<close>

record 'arr codec =
  collab :: "'arr collaborators"
  codec_mode :: stegano_mode

definition QuantumSteganography_init :: "'arr collaborators \<Rightarrow> 'arr codec" where
  "QuantumSteganography_init env = \<lparr>collab = env, codec_mode = initialize_mode\<rparr>"

text \<open>
  The \<^verbatim>\<open>try\<close> block of \<^verbatim>\<open>QuantumSteganography.encode\<close>.  The image built by
  \<^verbatim>\<open>Image.fromarray\<close> is the only object of the store handed to the mode's encode, and
  it is that object which is saved.
\<close>

definition encode_body ::
    "'arr codec \<Rightarrow> filesystem \<Rightarrow> string \<Rightarrow> string \<Rightarrow> string
     \<Rightarrow> py_exception + bool \<times> filesystem" where
  "encode_body self fs input_path output_path file_type =
     (case image_open fs input_path of Inl e \<Rightarrow> Inl e | Inr opened \<Rightarrow>
      let img_array = np_array (collab self) (to_rgb opened) in
      case apply_quantum_transform (collab self) img_array of Inl e \<Rightarrow> Inl e
      | Inr transformed_data \<Rightarrow>
      case np_uint8 (collab self) transformed_data of Inl e \<Rightarrow> Inl e | Inr (w, h, f) \<Rightarrow>
      let img = ImgRGB w h f in
      case get_superposition_state (collab self) img_array of Inl e \<Rightarrow> Inl e | Inr states \<Rightarrow>
      case states of [] \<Rightarrow> Inl IndexError | state0 # _ \<Rightarrow>
      case record_quantum_state (collab self) state0 of Inl e \<Rightarrow> Inl e | Inr _ \<Rightarrow>
      case analyze_pattern (collab self) transformed_data of Inl e \<Rightarrow> Inl e | Inr _ \<Rightarrow>
      case generate_pq_hash (collab self) 0 file_type of Inl e \<Rightarrow> Inl e | Inr data_hash \<Rightarrow>
      let (success, hp) = SteganoMode_encode (codec_mode self) [img] 0 data_hash None in
      if success then
        (case record_quantum_state (collab self) transformed_data of Inl e \<Rightarrow> Inl e | Inr _ \<Rightarrow>
         case save_error (collab self) output_path of
           Some e \<Rightarrow> Inl e
         | None \<Rightarrow> Inr (True, fs(output_path \<mapsto> hp ! 0)))
      else Inr (False, fs))"

text \<open>
  \<^verbatim>\<open>QuantumSteganography.encode\<close>.  The result is the boolean returned together with the
  files afterwards, or \<open>Inl\<close> for an exception that reaches the caller.
\<close>

definition QuantumSteganography_encode ::
    "'arr codec \<Rightarrow> filesystem \<Rightarrow> string \<Rightarrow> string \<Rightarrow> string \<Rightarrow> bool
     \<Rightarrow> py_exception + bool \<times> filesystem" where
  "QuantumSteganography_encode self fs input_path output_path file_type ethical_check =
     (case (if ethical_check
            then try_except (validate_content (collab self) input_path)
                   [(is_Exception, \<lambda>e. Inr False)]
            else Inr True) of
        Inl e \<Rightarrow> Inl e
      | Inr valid \<Rightarrow>
          if \<not> valid then Inr (False, fs)
          else try_except (encode_body self fs input_path output_path file_type)
                 [(is_QuantumStateError, \<lambda>e. Inr (False, fs)),
                  (is_PhiModulationError, \<lambda>e. Inr (False, fs)),
                  (is_EntropyPoolError, \<lambda>e. Inr (False, fs)),
                  (is_Exception, \<lambda>e. Inr (False, fs))])"

text \<open>\<^verbatim>\<open>FILE_TYPE_MAP\<close>, in the order of the dictionary literal.\<close>

definition FILE_TYPE_MAP :: "(string \<times> string) list" where
  "FILE_TYPE_MAP =
     [(''image/png'', ''image/png''), (''text/plain'', ''text/plain''),
      (''audio/mpeg'', ''audio/mpeg''), (''video/mp4'', ''video/mp4'')]"

text \<open>
  \<^verbatim>\<open>for file_type in self.FILE_TYPE_MAP: if generate_pq_hash(file_type) == decoded_hash:
  return file_type\<close>, then \<^verbatim>\<open>return "unknown"\<close>.
\<close>

fun match_file_type ::
    "'arr collaborators \<Rightarrow> pystr \<Rightarrow> nat \<Rightarrow> string list \<Rightarrow> py_exception + string" where
  "match_file_type env decoded_hash n [] = Inr ''unknown''"
| "match_file_type env decoded_hash n (file_type # file_types) =
     (case generate_pq_hash env n file_type of
        Inl e \<Rightarrow> Inl e
      | Inr h \<Rightarrow>
          if h = decoded_hash then Inr file_type
          else match_file_type env decoded_hash (Suc n) file_types)"

text \<open>The \<^verbatim>\<open>try\<close> block of \<^verbatim>\<open>QuantumSteganography.decode\<close>.\<close>

definition decode_body ::
    "'arr codec \<Rightarrow> filesystem \<Rightarrow> string \<Rightarrow> bool \<Rightarrow> py_exception + string" where
  "decode_body self fs image_path validate_temporal =
     (case image_open fs image_path of Inl e \<Rightarrow> Inl e | Inr opened \<Rightarrow>
      let img_array = np_array (collab self) (to_rgb opened) in
      case (if validate_temporal
            then (case validate_pattern (collab self) img_array of
                    Inl e \<Rightarrow> Inl e
                  | Inr ok \<Rightarrow> if \<not> ok then Inl QuantumStateError else Inr ())
            else Inr ()) of Inl e \<Rightarrow> Inl e | Inr _ \<Rightarrow>
      case apply_quantum_transform (collab self) (np_negative (collab self) img_array) of
        Inl e \<Rightarrow> Inl e
      | Inr transformed_data \<Rightarrow>
      case np_uint8 (collab self) transformed_data of Inl e \<Rightarrow> Inl e | Inr (w, h, f) \<Rightarrow>
      case record_quantum_state (collab self) transformed_data of Inl e \<Rightarrow> Inl e | Inr _ \<Rightarrow>
      match_file_type (collab self) (SteganoMode_decode (codec_mode self) (ImgRGB w h f)) 0
        (map fst FILE_TYPE_MAP))"

text \<open>\<^verbatim>\<open>QuantumSteganography.decode\<close>\<close>

definition QuantumSteganography_decode ::
    "'arr codec \<Rightarrow> filesystem \<Rightarrow> string \<Rightarrow> bool \<Rightarrow> py_exception + string" where
  "QuantumSteganography_decode self fs image_path validate_temporal =
     try_except (decode_body self fs image_path validate_temporal)
       [(is_QuantumStateError, \<lambda>e. Inr ''unknown''),
        (is_Exception, \<lambda>e. Inr ''unknown'')]"



section \<open>Notions used in the statements and proofs\<close>

text \<open>The shape of a pixel value, named by the image mode that yields it.\<close>

fun pixel_shape :: "pixel \<Rightarrow> img_mode" where
  "pixel_shape (PInt v) = L"
| "pixel_shape (PTuple3 r g b) = RGB"
| "pixel_shape (PTuple4 r g b a) = RGBA"

text \<open>
  Writing a list of bits at a list of positions, one bit per position, until either list
  ends.  Each embedding loop above is an instance (lemmas \<open>embed_raster_write_bits\<close>,
  \<open>embed_positions_write_bits\<close>, \<open>embed_header_write_bits\<close>).
\<close>

fun write_bits ::
    "(bool \<Rightarrow> pixel \<Rightarrow> py_exception + pixel) \<Rightarrow> image \<Rightarrow> (int \<times> int) list \<Rightarrow> bool list
     \<Rightarrow> py_exception option \<times> image" where
  "write_bits upd img [] bits = (None, img)"
| "write_bits upd img (p # ps) [] = (None, img)"
| "write_bits upd img (p # ps) (b # bits) =
     (case write_pixel upd img p b of
        Inl e \<Rightarrow> (Some e, img)
      | Inr img' \<Rightarrow> write_bits upd img' ps bits)"



section \<open>Properties of the checksum\<close>

text \<open>
  The constant for \<^verbatim>\<open>5 ** 0.5\<close> is the double nearest to the square root of five, and
  \<open>phi\<close> evaluates to \<^verbatim>\<open>0x1.9e3779b97f4a8p+0\<close>.  Two steps of the checksum fold, as
  Python computes them.
\<close>

lemma pow_5_half_nearest:
  "(2 * fst pow_5_half - 1)\<^sup>2 < 20 * 2 ^ (2 * snd pow_5_half)
   \<and> 20 * 2 ^ (2 * snd pow_5_half) < (2 * fst pow_5_half + 1)\<^sup>2"
  by (simp add: pow_5_half_def power2_eq_square)

lemma phi_value: "phi = (7286977268806824, 52)"
  by code_simp

lemma checksum_step_example:
  "checksum_step 0 (1, 2, 3) = 9 \<and> checksum_step 9 (255, 255, 255) = 228"
  by code_simp

lemma set_py_range: "set (py_range a b) = {x. a \<le> x \<and> x < b}"
  by (auto simp: py_range_def)

lemma getpixel_rgb_inside:
  "0 \<le> x \<Longrightarrow> x < int w \<Longrightarrow> 0 \<le> y \<Longrightarrow> y < int h \<Longrightarrow>
   getpixel (ImgRGB w h f) (x, y) = Inr (case f (nat x, nat y) of (r, g, b) \<Rightarrow> PTuple3 r g b)"
  by (simp add: getpixel_def pixel_index_def)

lemma checksum_ys_rgb:
  assumes "0 \<le> x" "x < int w" "\<forall>y\<in>set ys. 0 \<le> y \<and> y < int h"
  shows "checksum_ys (ImgRGB w h f) x ys c =
         Inr (foldl checksum_step c (map (\<lambda>y. f (nat x, nat y)) ys))"
  using assms
proof (induction ys arbitrary: c)
  case Nil
  then show ?case by simp
next
  case (Cons y ys)
  then have "getpixel (ImgRGB w h f) (x, y) =
             Inr (case f (nat x, nat y) of (r, g, b) \<Rightarrow> PTuple3 r g b)"
    by (simp add: getpixel_rgb_inside)
  with Cons show ?case
    by (simp split: prod.splits)
qed

lemma checksum_xs_rgb:
  assumes "\<forall>x\<in>set xs. 0 \<le> x \<and> x < int w" "\<forall>y\<in>set ys. 0 \<le> y \<and> y < int h"
  shows "checksum_xs (ImgRGB w h f) xs ys c =
         Inr (foldl checksum_step c
                (map (\<lambda>(x, y). f (nat x, nat y)) (column_major xs ys)))"
  using assms
proof (induction xs arbitrary: c)
  case Nil
  then show ?case by (simp add: column_major_def)
next
  case (Cons x xs)
  then have "checksum_ys (ImgRGB w h f) x ys c =
             Inr (foldl checksum_step c (map (\<lambda>y. f (nat x, nat y)) ys))"
    by (simp add: checksum_ys_rgb)
  moreover have "map (\<lambda>(x, y). f (nat x, nat y)) (column_major (x # xs) ys) =
                 map (\<lambda>y. f (nat x, nat y)) ys
                 @ map (\<lambda>(x, y). f (nat x, nat y)) (column_major xs ys)"
    by (simp add: column_major_def comp_def)
  ultimately show ?case
    using Cons by simp
qed

lemma clamp_axis:
  fixes a b d :: int
  assumes "0 \<le> d" "lo = max 0 (min a (d - 1))" "hi = max lo (min b d)"
  shows "0 \<le> lo \<and> lo \<le> hi \<and> hi \<le> d"
proof -
  have 1: "0 \<le> lo" using assms(2) by (simp only: max.cobounded1)
  have 2: "lo \<le> hi" using assms(3) by (simp only: max.cobounded1)
  have "min a (d - 1) \<le> d" by (rule order_trans [OF min.cobounded2]) simp
  with assms(1,2) have 3: "lo \<le> d" by (simp only: max.bounded_iff)
  have "min b d \<le> d" by (rule min.cobounded2)
  with 3 assms(3) have 4: "hi \<le> d" by (simp only: max.bounded_iff)
  from 1 2 4 show ?thesis by blast
qed

lemma clamp_region_bounds:
  assumes "clamp_region img region = (x1, y1, x2, y2)"
  shows "0 \<le> x1 \<and> x1 \<le> x2 \<and> x2 \<le> int (width img)
       \<and> 0 \<le> y1 \<and> y1 \<le> y2 \<and> y2 \<le> int (height img)"
proof -
  obtain a b c d where r: "region = (a, b, c, d)" by (cases region) auto
  from assms r have e:
    "x1 = max 0 (min a (int (width img) - 1))" "x2 = max x1 (min c (int (width img)))"
    "y1 = max 0 (min b (int (height img) - 1))" "y2 = max y1 (min d (int (height img)))"
    by (auto simp add: clamp_region_def Let_def)
  from clamp_axis [OF _ e(1) e(2)] clamp_axis [OF _ e(3) e(4)] show ?thesis by simp
qed

lemma calculate_checksum_rgb:
  assumes "clamp_region (ImgRGB w h f) region = (x1, y1, x2, y2)"
  shows "checksum_xs (ImgRGB w h f) (py_range x1 x2) (py_range y1 y2) 0 =
         Inr (foldl checksum_step 0
                (map (\<lambda>(x, y). f (nat x, nat y))
                   (column_major (py_range x1 x2) (py_range y1 y2))))"
proof -
  from clamp_region_bounds [OF assms]
  have b: "0 \<le> x1" "x2 \<le> int w" "0 \<le> y1" "y2 \<le> int h"
    by simp_all
  show ?thesis
    by (rule checksum_xs_rgb) (use b in \<open>auto simp: set_py_range\<close>)
qed



text \<open>
  Claim C6, as amended.  On an RGB image \<open>calculate_checksum\<close> starts from 0 and folds
  \<open>checksum \<leftarrow> int((checksum + r + g + b) * phi) mod 256\<close> over every pixel of the clamped
  region and returns the final value; the pixels are visited column by column: \<open>x\<close> in
  increasing order in the outer loop, \<open>y\<close> varying fastest.
\<close>

theorem calculate_checksum_column_major:
  "calculate_checksum (ImgRGB w h f) region =
     (case clamp_region (ImgRGB w h f) region of (x1, y1, x2, y2) \<Rightarrow>
        foldl checksum_step 0
          (map (\<lambda>(x, y). f (nat x, nat y)) (column_major (py_range x1 x2) (py_range y1 y2))))"
proof -
  obtain x1 y1 x2 y2 where c: "clamp_region (ImgRGB w h f) region = (x1, y1, x2, y2)"
    by (cases "clamp_region (ImgRGB w h f) region") auto
  show ?thesis
    by (simp add: calculate_checksum_def c calculate_checksum_rgb [OF c])
qed

text \<open>
  Claim C6 as the specification states it, with the pixels visited row by row, fails: on
  this 2 by 2 image the code returns 6 and the row-major fold gives 9.
\<close>

theorem calculate_checksum_row_major_counterexample:
  "calculate_checksum
     (ImgRGB 2 2 (\<lambda>p. if p = (0, 1) then (1, 0, 0) else if p = (1, 0) then (2, 0, 0) else (0, 0, 0)))
     (0, 0, 2, 2) = 6
   \<and> spec_checksum_row_major 2 2
     (\<lambda>p. if p = (0, 1) then (1, 0, 0) else if p = (1, 0) then (2, 0, 0) else (0, 0, 0))
     (0, 0, 2, 2) = 9"
  by code_simp




section \<open>Pixel buffers and the embedding loops\<close>

lemma buffer_get_shape: "pixel_shape (buffer_get img p) = mode img"
  by (cases img) (auto split: prod.splits)

lemma buffer_put_shape:
  assumes "pixel_shape v = mode img"
  shows "\<exists>img'. buffer_put img p v = Inr img' \<and> mode img' = mode img
           \<and> width img' = width img \<and> height img' = height img
           \<and> (\<forall>q. buffer_get img' q = (if q = p then v else buffer_get img q))"
  using assms by (cases img; cases v) auto

lemma pixel_index_dims:
  "width img' = width img \<Longrightarrow> height img' = height img \<Longrightarrow>
   pixel_index img' xy = pixel_index img xy"
  by (cases xy) (simp add: pixel_index_def)

lemma pixel_index_inside:
  "x < width img \<Longrightarrow> y < height img \<Longrightarrow> pixel_index img (int x, int y) = Inr (x, y)"
  by (simp add: pixel_index_def)

lemma pixel_index_range:
  "pixel_index img xy = Inr p \<Longrightarrow> fst p < width img \<and> snd p < height img"
  by (cases xy) (auto simp: pixel_index_def Let_def split: if_splits)

lemma write_pixel_ok:
  assumes "pixel_index img xy = Inr p"
    and "upd b (buffer_get img p) = Inr v'"
    and "pixel_shape v' = mode img"
  shows "\<exists>img'. write_pixel upd img xy b = Inr img' \<and> mode img' = mode img
           \<and> width img' = width img \<and> height img' = height img
           \<and> (\<forall>q. buffer_get img' q = (if q = p then v' else buffer_get img q))"
  using assms buffer_put_shape [OF assms(3), of p]
  by (simp add: write_pixel_def getpixel_def putpixel_def)


lemma write_bits_spec:
  assumes ok: "\<And>b v. pixel_shape v = m \<Longrightarrow> \<exists>v'. upd b v = Inr v' \<and> pixel_shape v' = m"
  shows "mode img = m \<Longrightarrow> list_all2 (\<lambda>q p. pixel_index img q = Inr p) qs ps \<Longrightarrow> distinct ps \<Longrightarrow>
     \<exists>img'. write_bits upd img qs bits = (None, img') \<and> mode img' = m
       \<and> width img' = width img \<and> height img' = height img
       \<and> (\<forall>k < min (length ps) (length bits).
             upd (bits ! k) (buffer_get img (ps ! k)) = Inr (buffer_get img' (ps ! k)))
       \<and> (\<forall>q. q \<notin> set (take (length bits) ps) \<longrightarrow> buffer_get img' q = buffer_get img q)"
proof (induction qs arbitrary: img ps bits)
  case Nil
  then show ?case by simp
next
  case (Cons q qs)
  from Cons.prems(2) obtain p ps' where ps: "ps = p # ps'"
    and qp: "pixel_index img q = Inr p"
    and rest: "list_all2 (\<lambda>q p. pixel_index img q = Inr p) qs ps'"
    by (auto simp: list_all2_Cons1)
  from Cons.prems(3) ps have d: "p \<notin> set ps'" "distinct ps'" by auto
  show ?case
  proof (cases bits)
    case Nil
    with Cons.prems(1) show ?thesis by simp
  next
    case (Cons b bs)
    have "pixel_shape (buffer_get img p) = m"
      using Cons.prems(1) by (simp add: buffer_get_shape)
    from ok [OF this, of b] obtain v' where v': "upd b (buffer_get img p) = Inr v'"
      "pixel_shape v' = m" by blast
    have sh: "pixel_shape v' = mode img" using v'(2) Cons.prems(1) by simp
    from write_pixel_ok [where upd = upd and b = b, OF qp v'(1) sh] Cons.prems(1)
    obtain img1 where w1: "write_pixel upd img q b = Inr img1" "mode img1 = m"
      "width img1 = width img" "height img1 = height img"
      and g1: "\<And>r. buffer_get img1 r = (if r = p then v' else buffer_get img r)"
      by auto
    have rest1: "list_all2 (\<lambda>q p. pixel_index img1 q = Inr p) qs ps'"
      using rest pixel_index_dims [OF w1(3) w1(4)] by simp
    from Cons.IH [OF w1(2) rest1 d(2), of bs]
    obtain img' where r: "write_bits upd img1 qs bs = (None, img')" "mode img' = m"
      "width img' = width img1" "height img' = height img1"
      and hit: "\<And>k. k < min (length ps') (length bs) \<Longrightarrow>
            upd (bs ! k) (buffer_get img1 (ps' ! k)) = Inr (buffer_get img' (ps' ! k))"
      and miss: "\<And>r. r \<notin> set (take (length bs) ps') \<Longrightarrow> buffer_get img' r = buffer_get img1 r"
      by blast
    have a: "write_bits upd img (q # qs) bits = (None, img')"
      using w1(1) r(1) Cons by simp
    have b: "upd (bits ! k) (buffer_get img (ps ! k)) = Inr (buffer_get img' (ps ! k))"
      if k: "k < min (length ps) (length bits)" for k
    proof (cases k)
      case 0
      have "p \<notin> set (take (length bs) ps')" using d(1) by (auto dest: in_set_takeD)
      from miss [OF this] g1 [of p] have "buffer_get img' p = v'" by simp
      with v'(1) 0 ps Cons show ?thesis by simp
    next
      case (Suc j)
      with k ps Cons have j: "j < min (length ps') (length bs)" by simp
      then have "ps' ! j \<in> set ps'" by simp
      with d(1) have "ps' ! j \<noteq> p" by auto
      with g1 [of "ps' ! j"] have "buffer_get img1 (ps' ! j) = buffer_get img (ps' ! j)" by simp
      with hit [OF j] Suc ps Cons show ?thesis by simp
    qed
    have c: "buffer_get img' r = buffer_get img r" if "r \<notin> set (take (length bits) ps)" for r
    proof -
      from that ps Cons have "r \<noteq> p" "r \<notin> set (take (length bs) ps')" by auto
      with miss [of r] g1 [of r] show ?thesis by simp
    qed
    from a b c r w1 show ?thesis by auto
  qed
qed

lemma write_bits_no_bits [simp]: "write_bits upd img ps [] = (None, img)"
  by (cases ps) simp_all



lemma embed_header_write_bits:
  "embed_header img i bits =
     write_bits phi_update img (map (\<lambda>j. (int (j mod 50), int (j div 50))) [i..<i + length bits]) bits"
proof (induction bits arbitrary: img i)
  case Nil
  then show ?case by simp
next
  case (Cons b bits)
  have e: "[i..<Suc (i + length bits)] = i # [Suc i..<Suc (i + length bits)]"
    by (subst upt_conv_Cons) simp_all
  show ?case
    by (simp add: e Cons.IH del: upt_Suc split: sum.splits)
qed







section \<open>Bit strings and characters\<close>

lemma int_base2_snoc: "int_base2 (xs @ [b]) = 2 * int_base2 xs + (if b then 1 else 0)"
  by (simp add: int_base2_def)

lemma int_base2_bin_digits: "int_base2 (bin_digits n) = n"
proof (induction n rule: bin_digits.induct)
  case (1 n)
  show ?case
  proof (cases "n < 2")
    case True
    then show ?thesis
      by (subst bin_digits.simps) (auto simp: int_base2_def)
  next
    case False
    with 1 have "int_base2 (bin_digits (n div 2)) = n div 2" by simp
    with False show ?thesis
      by (subst bin_digits.simps) (simp add: int_base2_snoc)
  qed
qed

lemma int_base2_zeros: "int_base2 (replicate k False @ xs) = int_base2 xs"
proof -
  have "foldl (\<lambda>a b. 2 * a + (if b then 1 else 0)) (0::nat) (replicate k False) = 0"
    by (induction k) simp_all
  then show ?thesis by (simp add: int_base2_def)
qed

lemma int_base2_format_08b: "int_base2 (format_08b n) = n"
  by (simp add: format_08b_def int_base2_zeros int_base2_bin_digits)

lemma length_bin_digits: "n < 2 ^ Suc k \<Longrightarrow> length (bin_digits n) \<le> Suc k"
proof (induction k arbitrary: n)
  case 0
  then show ?case by (subst bin_digits.simps) simp
next
  case (Suc k)
  show ?case
  proof (cases "n < 2")
    case True
    then show ?thesis by (subst bin_digits.simps) simp
  next
    case False
    from Suc.prems have "n div 2 < 2 ^ Suc k" by simp
    from Suc.IH [OF this] False show ?thesis
      by (subst bin_digits.simps) simp
  qed
qed

lemma length_bin_digits_pos: "0 < length (bin_digits n)"
  by (subst bin_digits.simps) simp

lemma length_format_08b: "n < 256 \<Longrightarrow> length (format_08b n) = 8"
  using length_bin_digits [of n 7] by (simp add: format_08b_def)

lemma length_format_08b_ge: "8 \<le> length (format_08b n)"
  by (simp add: format_08b_def)

lemma chars_of_binary_Nil [simp]: "chars_of_binary [] = []"
  by (simp add: chars_of_binary.simps)






section \<open>The reading loops of the decoders\<close>


lemma getpixel_inside:
  "x < width img \<Longrightarrow> y < height img \<Longrightarrow> getpixel img (int x, int y) = Inr (buffer_get img (x, y))"
  by (simp add: getpixel_def pixel_index_inside)





section \<open>The bits that an update changes\<close>

lemma and_1_bit0: "(r AND 1 = 1) = bit r 0" for r :: u8
  by (simp add: and_one_eq bit_0 mod_2_eq_odd)


lemma set_lsb_bits:
  "bit ((a AND NOT 1) OR of_bool b) n = (if n = 0 then b else bit a n)" for a :: u8
  by (auto simp: bit_simps dest: bit_imp_le_length)




lemma rgb_image:
  assumes "mode img = RGB"
  shows "\<exists>f. img = ImgRGB (width img) (height img) f"
  using assms by (cases img) auto


lemma rgb_upd_ok:
  assumes "\<And>b r g bl. upd b (PTuple3 r g bl) =
             Inr (case u b (r, g, bl) of (r', g', b') \<Rightarrow> PTuple3 r' g' b')"
    and "pixel_shape v = RGB"
  shows "\<exists>v'. upd b v = Inr v' \<and> pixel_shape v' = RGB"
  using assms by (cases v) (auto split: prod.splits)


lemma tuple3_eq:
  "((case p of (r, g, b) \<Rightarrow> PTuple3 r g b) = (case q of (r, g, b) \<Rightarrow> PTuple3 r g b)) = (p = q)"
  by (cases p; cases q) auto




lemma write_bits_rgb:
  assumes u: "\<And>b r g bl. upd b (PTuple3 r g bl) =
             Inr (case u b (r, g, bl) of (r', g', b') \<Rightarrow> PTuple3 r' g' b')"
    and qs: "list_all2 (\<lambda>q p. pixel_index (ImgRGB w h f) q = Inr p) qs ps"
    and d: "distinct ps"
  shows "\<exists>f'. write_bits upd (ImgRGB w h f) qs bits = (None, ImgRGB w h f')
       \<and> (\<forall>k < min (length ps) (length bits). f' (ps ! k) = u (bits ! k) (f (ps ! k)))
       \<and> (\<forall>q. q \<notin> set (take (length bits) ps) \<longrightarrow> f' q = f q)"
proof -
  have m: "mode (ImgRGB w h f) = RGB" by simp
  from write_bits_spec [where upd = upd and m = RGB and bits = bits,
      OF rgb_upd_ok [where upd = upd and u = u, OF u] m qs d]
  obtain img' where r: "write_bits upd (ImgRGB w h f) qs bits = (None, img')"
      "mode img' = RGB" "width img' = w" "height img' = h"
    and hit: "\<And>k. k < min (length ps) (length bits) \<Longrightarrow>
        upd (bits ! k) (buffer_get (ImgRGB w h f) (ps ! k)) = Inr (buffer_get img' (ps ! k))"
    and miss: "\<And>q. q \<notin> set (take (length bits) ps) \<Longrightarrow>
        buffer_get img' q = buffer_get (ImgRGB w h f) q"
    by auto
  from rgb_image [OF r(2)] r(3,4) obtain f' where f': "img' = ImgRGB w h f'" by auto
  have a: "f' (ps ! k) = u (bits ! k) (f (ps ! k))" if "k < min (length ps) (length bits)" for k
  proof -
    obtain r g bl where p: "f (ps ! k) = (r, g, bl)" by (cases "f (ps ! k)") auto
    from hit [OF that] show ?thesis
      unfolding f' by (simp add: p u tuple3_eq)
  qed
  have b: "f' q = f q" if "q \<notin> set (take (length bits) ps)" for q
    using miss [OF that] unfolding f' by (simp add: tuple3_eq)
  from r(1) a b show ?thesis unfolding f' by blast
qed

lemma phi_update_rgb:
  "phi_update b (PTuple3 r g bl) =
     Inr (case (\<lambda>b (r, g, bl). ((r AND NOT 1) OR of_bool b, g, bl)) b (r, g, bl) of
            (r', g', b') \<Rightarrow> PTuple3 r' g' b')"
  by (simp add: phi_update_def)



section \<open>The checksum in the header\<close>

lemma extract_header_rgb:
  "\<forall>i\<in>set js. i mod 50 < w \<and> i div 50 < h \<Longrightarrow>
   extract_header (ImgRGB w h f) js acc =
     Inr (acc @ map (\<lambda>i. bit (fst (f (i mod 50, i div 50))) 0) js)"
proof (induction js arbitrary: acc)
  case Nil
  then show ?case by simp
next
  case (Cons i js)
  then have "getpixel (ImgRGB w h f) (int (i mod 50), int (i div 50)) =
             Inr (buffer_get (ImgRGB w h f) (i mod 50, i div 50))"
    by (simp add: getpixel_inside)
  with Cons show ?case
    by (simp add: phi_sample_def and_1_bit0 split: prod.splits)
qed

lemma header_positions:
  assumes "8 \<le> w" "1 \<le> h"
  shows "list_all2 (\<lambda>q p. pixel_index (ImgRGB w h f) q = Inr p)
           (map (\<lambda>j. (int (j mod 50), int (j div 50))) [0..<8]) (map (\<lambda>j. (j, 0)) [0..<8])"
proof -
  have "pixel_index (ImgRGB w h f) (int (j mod 50), int (j div 50)) = Inr (j, 0)" if "j < 8" for j
    using that assms by (simp add: pixel_index_def)
  then show ?thesis
    by (simp only: list_all2_map1 list_all2_map2 list_all2_same) simp
qed

text \<open>
  Claim C8.  For every RGB image of width at least 8 and height at least 1 and every
  checksum \<open>c\<close> from 0 to 255, \<open>embed_checksum\<close> stores the eight binary digits of \<open>c\<close>,
  most significant first, in the lowest red bit of the pixels \<open>(i mod 50, i div 50)\<close>
  for \<open>i\<close> from 0 to 7, leaves the other channels and all other pixels as they were,
  and \<open>extract_checksum\<close> of the result is \<open>c\<close>.
\<close>

theorem checksum_embed_extract:
  assumes "8 \<le> w" "1 \<le> h" "0 \<le> c" "c \<le> 255"
  shows "\<exists>f'. embed_checksum (ImgRGB w h f) c = ImgRGB w h f'
       \<and> length (format_08b (nat c)) = 8 \<and> int (int_base2 (format_08b (nat c))) = c
       \<and> (\<forall>i<8. f' (i mod 50, i div 50) =
             (case f (i mod 50, i div 50) of
                (r, g, b) \<Rightarrow> ((r AND NOT 1) OR of_bool (format_08b (nat c) ! i), g, b)))
       \<and> (\<forall>q. (\<forall>i<8. q \<noteq> (i mod 50, i div 50)) \<longrightarrow> f' q = f q)
       \<and> extract_checksum (ImgRGB w h f') = c"
proof -
  let ?bits = "format_08b (nat c)"
  let ?u = "\<lambda>b (r, g, bl). ((r AND NOT 1) OR of_bool b, g, bl)"
  let ?ps = "map (\<lambda>j. (j, 0::nat)) [0..<8]"
  have len: "length ?bits = 8"
    using assms(3,4) by (simp add: length_format_08b)
  have val: "int (int_base2 ?bits) = c"
    using assms(3) by (simp add: int_base2_format_08b)
  have d: "distinct ?ps"
    by (simp add: distinct_map inj_on_def)
  from write_bits_rgb [where upd = phi_update and u = ?u and bits = ?bits,
      OF phi_update_rgb header_positions [OF assms(1,2)] d]
  obtain f' where r: "write_bits phi_update (ImgRGB w h f)
        (map (\<lambda>j. (int (j mod 50), int (j div 50))) [0..<8]) ?bits = (None, ImgRGB w h f')"
    and hit: "\<And>k. k < min (length ?ps) (length ?bits) \<Longrightarrow> f' (?ps ! k) = ?u (?bits ! k) (f (?ps ! k))"
    and miss: "\<And>q. q \<notin> set (take (length ?bits) ?ps) \<Longrightarrow> f' q = f q"
    by blast
  have e: "embed_checksum (ImgRGB w h f) c = ImgRGB w h f'"
    using assms(3) r by (simp add: embed_checksum_def embed_header_write_bits len)
  have a: "f' (i mod 50, i div 50) =
        (case f (i mod 50, i div 50) of
           (r, g, b) \<Rightarrow> ((r AND NOT 1) OR of_bool (?bits ! i), g, b))" if "i < 8" for i
  proof -
    from that have "?ps ! i = (i mod 50, i div 50)" by simp
    with hit [of i] that len show ?thesis by simp
  qed
  have b: "f' q = f q" if q: "\<forall>i<8. q \<noteq> (i mod 50, i div 50)" for q
  proof (rule miss)
    show "q \<notin> set (take (length ?bits) ?ps)"
    proof
      assume "q \<in> set (take (length ?bits) ?ps)"
      then obtain i where "i < 8" "q = (i, 0)" by (auto simp: len)
      with q show False by auto
    qed
  qed
  have "extract_header (ImgRGB w h f') [0..<8] [] =
        Inr ([] @ map (\<lambda>i. bit (fst (f' (i mod 50, i div 50))) 0) [0..<8])"
    by (rule extract_header_rgb) (use assms in auto)
  also have "map (\<lambda>i. bit (fst (f' (i mod 50, i div 50))) 0) [0..<8] = map (\<lambda>i. ?bits ! i) [0..<8]"
  proof (rule map_cong [OF refl])
    fix i assume "i \<in> set [0..<8]"
    then have i: "i < 8" by simp
    obtain r g bl where p: "f (i mod 50, i div 50) = (r, g, bl)"
      by (cases "f (i mod 50, i div 50)") auto
    have "f' (i mod 50, i div 50) = ((r AND NOT 1) OR of_bool (?bits ! i), g, bl)"
      using a [OF i] p by simp
    then show "bit (fst (f' (i mod 50, i div 50))) 0 = ?bits ! i"
      by (simp only: fst_conv set_lsb_bits) simp
  qed
  also have "\<dots> = ?bits"
    using map_nth [of ?bits] by (simp only: len)
  finally have x: "extract_checksum (ImgRGB w h f') = c"
    by (simp add: extract_checksum_def val)
  from e len val a b x show ?thesis by blast
qed

text \<open>
  Witness for C8: the checksum 165 in a black image of 8 by 1 pixels.
\<close>

theorem checksum_embed_extract_witness:
  "(8::nat) \<le> 8 \<and> (1::nat) \<le> 1 \<and> (0::int) \<le> 165 \<and> (165::int) \<le> 255
   \<and> extract_checksum (embed_checksum (ImgRGB 8 1 (\<lambda>p. (0, 0, 0))) 165) = 165"
proof -
  from checksum_embed_extract [of 8 1 165 "\<lambda>p. (0, 0, 0)"]
  obtain f' where "embed_checksum (ImgRGB 8 1 (\<lambda>p. (0, 0, 0))) 165 = ImgRGB 8 1 f'"
    "extract_checksum (ImgRGB 8 1 f') = 165"
    by auto
  then show ?thesis by simp
qed

section \<open>Mode selection\<close>

text \<open>
  Claim C10.  \<open>initialize_mode\<close> takes no input: the chaos factor is the double
  \<open>0.6 * phi % 1\<close>, which lies between 0.970 and 0.972, above 0.8, so the mode selected is
  the superposition mode, and every codec that is constructed has that mode.
\<close>

theorem initialize_mode_psi:
  "initialize_mode = PSI
   \<and> chaos_factor = (8744372722568188, 53)
   \<and> float_less float_0_8 chaos_factor
   \<and> 970 * 2 ^ 53 < 1000 * fst chaos_factor \<and> 1000 * fst chaos_factor < 972 * 2 ^ 53
   \<and> codec_mode (QuantumSteganography_init env) = PSI"
proof -
  have "initialize_mode = PSI
   \<and> chaos_factor = (8744372722568188, 53)
   \<and> float_less float_0_8 chaos_factor
   \<and> 970 * 2 ^ 53 < 1000 * fst chaos_factor \<and> 1000 * fst chaos_factor < 972 * 2 ^ 53"
    by code_simp
  then show ?thesis by (simp add: QuantumSteganography_init_def)
qed

section \<open>What the decoders return\<close>










section \<open>What the encoders write\<close>



















section \<open>Encoding, then decoding\<close>









section \<open>The codec\<close>

lemma try_except_encode:
  "try_except x [(is_QuantumStateError, \<lambda>e. Inr v), (is_PhiModulationError, \<lambda>e. Inr v),
                 (is_EntropyPoolError, \<lambda>e. Inr v), (is_Exception, \<lambda>e. Inr v)]
   = (case x of Inl e \<Rightarrow> Inr v | Inr r \<Rightarrow> Inr r)"
  by (cases x) simp_all

lemma try_except_decode:
  "try_except x [(is_QuantumStateError, \<lambda>e. Inr v), (is_Exception, \<lambda>e. Inr v)]
   = (case x of Inl e \<Rightarrow> Inr v | Inr r \<Rightarrow> Inr r)"
  by (cases x) simp_all

lemma try_except_validate:
  "try_except x [(is_Exception, \<lambda>e. Inr v)] = (case x of Inl e \<Rightarrow> Inr v | Inr r \<Rightarrow> Inr r)"
  by (cases x) simp_all

lemma match_file_type_result:
  "match_file_type env decoded_hash n file_types = Inr s \<Longrightarrow>
   s = ''unknown'' \<or> s \<in> set file_types"
  by (induction file_types arbitrary: n) (auto split: sum.splits if_splits)

lemma decode_body_result:
  assumes "decode_body self fs image_path validate_temporal = Inr s"
  shows "s = ''unknown'' \<or> s \<in> fst ` set FILE_TYPE_MAP"
proof -
  from assms obtain d where
    "match_file_type (collab self) d 0 (map fst FILE_TYPE_MAP) = Inr s"
    unfolding decode_body_def Let_def
    by (auto split: sum.splits prod.splits if_splits)
  from match_file_type_result [OF this] show ?thesis by simp
qed

text \<open>
  Claim C9.  Whatever the collaborators do, raise or return, no exception leaves the
  codec's \<open>encode\<close> or \<open>decode\<close>.  \<open>encode\<close> returns a boolean: \<open>False\<close>, with no file
  written, when the ethical check fails or raises and when anything in its body raises,
  and the body's own result otherwise.  \<open>decode\<close> returns a string: \<open>"unknown"\<close> when
  anything in its body raises, and otherwise the body's result, which is a file type of
  \<open>FILE_TYPE_MAP\<close> or \<open>"unknown"\<close>.
\<close>

theorem codec_boundary:
  "(\<exists>b fs'. QuantumSteganography_encode self fs input_path output_path file_type ethical_check
              = Inr (b, fs'))
   \<and> QuantumSteganography_encode self fs input_path output_path file_type ethical_check =
       (if ethical_check \<and> validate_content (collab self) input_path \<noteq> Inr True
        then Inr (False, fs)
        else (case encode_body self fs input_path output_path file_type of
                Inl e \<Rightarrow> Inr (False, fs)
              | Inr r \<Rightarrow> Inr r))
   \<and> (\<exists>s. QuantumSteganography_decode self fs image_path validate_temporal = Inr s
          \<and> (s = ''unknown'' \<or> s \<in> fst ` set FILE_TYPE_MAP))
   \<and> QuantumSteganography_decode self fs image_path validate_temporal =
       (case decode_body self fs image_path validate_temporal of
          Inl e \<Rightarrow> Inr ''unknown''
        | Inr s \<Rightarrow> Inr s)"
proof -
  have e: "QuantumSteganography_encode self fs input_path output_path file_type ethical_check =
       (if ethical_check \<and> validate_content (collab self) input_path \<noteq> Inr True
        then Inr (False, fs)
        else (case encode_body self fs input_path output_path file_type of
                Inl e \<Rightarrow> Inr (False, fs)
              | Inr r \<Rightarrow> Inr r))"
    unfolding QuantumSteganography_encode_def try_except_encode try_except_validate
    by (cases "validate_content (collab self) input_path") auto
  have "\<exists>r. QuantumSteganography_encode self fs input_path output_path file_type ethical_check
              = Inr r"
    unfolding e by (cases "encode_body self fs input_path output_path file_type") auto
  then have e1: "\<exists>b fs'. QuantumSteganography_encode self fs input_path output_path file_type
      ethical_check = Inr (b, fs')"
    by auto
  have d: "QuantumSteganography_decode self fs image_path validate_temporal =
       (case decode_body self fs image_path validate_temporal of
          Inl e \<Rightarrow> Inr ''unknown''
        | Inr s \<Rightarrow> Inr s)"
    unfolding QuantumSteganography_decode_def try_except_decode ..
  have d1: "\<exists>s. QuantumSteganography_decode self fs image_path validate_temporal = Inr s
          \<and> (s = ''unknown'' \<or> s \<in> fst ` set FILE_TYPE_MAP)"
  proof (cases "decode_body self fs image_path validate_temporal")
    case (Inl e)
    then show ?thesis by (simp add: d)
  next
    case (Inr s)
    with decode_body_result [OF Inr] show ?thesis by (simp add: d)
  qed
  from e1 e d1 d show ?thesis by blast
qed




lemma QuantumSteganography_decode_eq:
  "QuantumSteganography_decode self fs image_path validate_temporal =
       (case decode_body self fs image_path validate_temporal of
          Inl e \<Rightarrow> Inr ''unknown''
        | Inr s \<Rightarrow> Inr s)"
  unfolding QuantumSteganography_decode_def try_except_decode ..



lemma decode_body_without_hashlib:
  assumes "\<And>state. hash_state (collab self) state = Inl NameError"
  shows "\<exists>e. decode_body self fs image_path validate_temporal = Inl e"
  unfolding decode_body_def image_open_def Let_def record_quantum_state_def
  by (auto simp: assms split: sum.splits option.splits prod.splits)

lemma decode_without_hashlib:
  assumes "\<And>state. hash_state (collab self) state = Inl NameError"
  shows "QuantumSteganography_decode self fs image_path validate_temporal = Inr ''unknown''"
  using decode_body_without_hashlib [of self fs image_path validate_temporal, OF assms]
  by (auto simp: QuantumSteganography_decode_eq)




end
